theory Spec2Isabelle
  imports Main "HOL-Library.AList" "HOL-Library.Multiset"
begin

section \<open>The tokenizer (tokenizer.go)\<close>

text \<open>
  A Go string is a sequence of bytes, modelled as a \<open>string\<close> (a list of 8-bit
  characters). \<open>strings.ToLower\<close> and the regular expression of \<open>clenup\<close> work on the
  runes of the string, so the model decodes UTF-8 the way Go does when it ranges over
  a string: a byte that does not start a well-formed encoding yields the rune U+FFFD
  and has width one.
\<close>

text \<open>A rune is Go's \<open>int32\<close>; the code points are far from its bounds.\<close>

type_synonym rune = int

definition RuneError :: rune where
  "RuneError = 0xFFFD"

definition between :: "int \<Rightarrow> int \<Rightarrow> char \<Rightarrow> bool" where
  "between lo hi b = (lo \<le> of_char b \<and> of_char b \<le> hi)"

definition low6 :: "char \<Rightarrow> int" where
  "low6 b = of_char b mod 64"

text \<open>
  \<open>decodeRune s\<close> is \<open>utf8.DecodeRuneInString\<close>: the first rune of \<open>s\<close> and its width
  in bytes. The accepted ranges of the second byte are those of the Go library
  (no overlong forms, no surrogates, nothing above U+10FFFF).
\<close>

fun decodeRune :: "string \<Rightarrow> rune \<times> nat" where
  "decodeRune [] = (RuneError, 0)"
| "decodeRune (b0 # bs) =
     (let x = (of_char b0 :: int) in
      if x < 0x80 then (x, 1)
      else if 0xC2 \<le> x \<and> x \<le> 0xDF then
        (case bs of
           b1 # _ \<Rightarrow>
             if between 0x80 0xBF b1 then ((x mod 32) * 64 + low6 b1, 2)
             else (RuneError, 1)
         | _ \<Rightarrow> (RuneError, 1))
      else if 0xE0 \<le> x \<and> x \<le> 0xEF then
        (case bs of
           b1 # b2 # _ \<Rightarrow>
             if between (if x = 0xE0 then 0xA0 else 0x80) (if x = 0xED then 0x9F else 0xBF) b1
                \<and> between 0x80 0xBF b2
             then ((x mod 16) * 4096 + low6 b1 * 64 + low6 b2, 3)
             else (RuneError, 1)
         | _ \<Rightarrow> (RuneError, 1))
      else if 0xF0 \<le> x \<and> x \<le> 0xF4 then
        (case bs of
           b1 # b2 # b3 # _ \<Rightarrow>
             if between (if x = 0xF0 then 0x90 else 0x80) (if x = 0xF4 then 0x8F else 0xBF) b1
                \<and> between 0x80 0xBF b2 \<and> between 0x80 0xBF b3
             then ((x mod 8) * 262144 + low6 b1 * 4096 + low6 b2 * 64 + low6 b3, 4)
             else (RuneError, 1)
         | _ \<Rightarrow> (RuneError, 1))
      else (RuneError, 1))"

text \<open>
  \<open>runes s\<close> is the sequence of runes that a range loop over \<open>s\<close> yields. It ends
  because a rune of a string that is not empty has a width of at least one.
\<close>

function runes :: "string \<Rightarrow> rune list" where
  "runes s =
     (if s = [] then [] else fst (decodeRune s) # runes (drop (snd (decodeRune s)) s))"
  by pat_completeness auto
termination
proof (relation "measure length")
  show "wf (measure length)" by simp
next
  fix s :: string
  assume "s \<noteq> []"
  then obtain b0 bs where s: "s = b0 # bs" by (cases s) auto
  have "0 < snd (decodeRune (b0 # bs))"
    by (auto simp: Let_def split: list.splits)
  with s show "(drop (snd (decodeRune s)) s, s) \<in> measure length" by simp
qed

declare runes.simps [simp del]

text \<open>
  \<open>unicode.ToLower\<close> on an ASCII rune adds 32 to an upper-case letter and leaves every
  other rune alone. On the runes from U+0080 on it is a table of the Go distribution,
  which is not part of the repository: the model takes it as the parameter \<open>ul\<close>.
  \<open>toLower ul s\<close> is the rune sequence of \<open>strings.ToLower(s)\<close>.
\<close>

definition toLowerRune :: "(rune \<Rightarrow> rune) \<Rightarrow> rune \<Rightarrow> rune" where
  "toLowerRune ul r =
     (if r < 0x80 then (if 0x41 \<le> r \<and> r \<le> 0x5A then r + 0x20 else r) else ul r)"

definition toLower :: "(rune \<Rightarrow> rune) \<Rightarrow> string \<Rightarrow> rune list" where
  "toLower ul s = map (toLowerRune ul) (runes s)"

text \<open>The character class \<open>[a-zA-Z 0-9]\<close> of the regular expression in \<open>clenup\<close>.\<close>

definition inClass :: "rune \<Rightarrow> bool" where
  "inClass r = ((0x61 \<le> r \<and> r \<le> 0x7A) \<or> (0x41 \<le> r \<and> r \<le> 0x5A) \<or> r = 0x20
                \<or> (0x30 \<le> r \<and> r \<le> 0x39))"

text \<open>
  \<open>re.ReplaceAllLiteralString(_, "")\<close> for the expression \<open>[^a-zA-Z 0-9]+\<close>: scanning
  from the left, every maximal run of runes outside the class is a match and is
  replaced by the empty string.
\<close>

function replaceAllLiteral :: "rune list \<Rightarrow> rune list" where
  "replaceAllLiteral [] = []"
| "replaceAllLiteral (r # rs) =
     (if inClass r then r # replaceAllLiteral rs
      else replaceAllLiteral (dropWhile (\<lambda>x. \<not> inClass x) rs))"
  by pat_completeness auto
termination
  by (relation "measure length") (auto simp: le_imp_less_Suc length_dropWhile_le)

text \<open>
  What \<open>clenup\<close> returns holds runes of the class only, all of them ASCII, so it is
  given as bytes again.
\<close>

definition clenup :: "(rune \<Rightarrow> rune) \<Rightarrow> string \<Rightarrow> string" where
  "clenup ul sentence = map char_of (replaceAllLiteral (toLower ul sentence))"

text \<open>
  \<open>strings.Fields\<close> on an ASCII string (its fast path; \<open>clenup\<close> returns nothing else):
  the white space is tab, line feed, vertical tab, form feed, carriage return and
  space. \<open>fieldsFrom cur s\<close> scans \<open>s\<close> with the field \<open>cur\<close> open.
\<close>

definition isSpace :: "char \<Rightarrow> bool" where
  "isSpace c = (c = CHR 0x09 \<or> c = CHR 0x0A \<or> c = CHR 0x0B \<or> c = CHR 0x0C \<or> c = CHR 0x0D
                \<or> c = CHR 0x20)"

fun fieldsFrom :: "string \<Rightarrow> string \<Rightarrow> string list" where
  "fieldsFrom cur [] = (if cur = [] then [] else [cur])"
| "fieldsFrom cur (c # cs) =
     (if isSpace c then (if cur = [] then fieldsFrom [] cs else cur # fieldsFrom [] cs)
      else fieldsFrom (cur @ [c]) cs)"

definition stringsFields :: "string \<Rightarrow> string list" where
  "stringsFields s = fieldsFrom [] s"

text \<open>The keys of the map \<open>stopWords\<close>, in the order of the source.\<close>

definition stopWords :: "string list" where
  "stopWords =
    [''i'', ''me'', ''my'', ''myself'', ''we'', ''our'', ''ours'',
     ''ourselves'', ''you'', ''your'', ''yours'', ''yourself'', ''yourselves'',
     ''he'', ''him'', ''his'', ''himself'', ''she'', ''her'', ''hers'',
     ''herself'', ''it'', ''its'', ''itself'', ''they'', ''them'', ''their'',
     ''theirs'', ''themselves'', ''what'', ''which'', ''who'', ''whom'', ''this'',
     ''that'', ''these'', ''those'', ''am'', ''is'', ''are'', ''was'',
     ''were'', ''be'', ''been'', ''being'', ''have'', ''has'', ''had'',
     ''having'', ''do'', ''does'', ''did'', ''doing'', ''a'', ''an'',
     ''the'', ''and'', ''but'', ''if'', ''or'', ''because'', ''as'',
     ''until'', ''while'', ''of'', ''at'', ''by'', ''for'', ''with'',
     ''about'', ''against'', ''between'', ''into'', ''through'', ''during'',
     ''before'', ''after'', ''above'', ''below'', ''to'', ''from'', ''up'',
     ''down'', ''in'', ''out'', ''on'', ''off'', ''over'', ''under'',
     ''again'', ''further'', ''then'', ''once'', ''here'', ''there'', ''when'',
     ''where'', ''why'', ''how'', ''all'', ''any'', ''both'', ''each'',
     ''few'', ''more'', ''most'', ''other'', ''some'', ''such'', ''no'',
     ''nor'', ''not'', ''only'', ''same'', ''so'', ''than'', ''too'',
     ''very'', ''can'', ''will'', ''just'', ''don't'', ''should'', ''should've'',
     ''now'', ''aren't'', ''couldn't'', ''didn't'', ''doesn't'', ''hasn't'', ''haven't'',
     ''isn't'', ''shouldn't'', ''wasn't'', ''weren't'', ''won't'', ''wouldn't'']"

definition isStopWord :: "string \<Rightarrow> bool" where
  "isStopWord w = (w \<in> set stopWords)"

text \<open>The loop of \<open>tokenize\<close> appends every field that is no stop word.\<close>

definition tokenize :: "(rune \<Rightarrow> rune) \<Rightarrow> string \<Rightarrow> string list" where
  "tokenize ul sentence =
     foldl (\<lambda>tokens w. if \<not> isStopWord w then tokens @ [w] else tokens) []
       (stringsFields (clenup ul sentence))"

section \<open>Floating point (the type \<open>float64\<close> of main.go)\<close>

text \<open>
  The scores of the classifier are IEEE 754 binary64 numbers. A finite number
  \<open>Fin s m e\<close> has the value \<open>(-1)\<^sup>s * m * 2\<^sup>e\<close> with \<open>0 \<le> m < 2\<^sup>5\<^sup>3\<close> and
  \<open>-1074 \<le> e \<le> 971\<close>; it is kept normalised (\<open>2\<^sup>5\<^sup>2 \<le> m\<close>, or \<open>e = -1074\<close> for the
  subnormal numbers and the two zeros), so equal terms are equal numbers, up to the
  sign of zero. \<open>Infty s\<close> is the infinity of sign \<open>s\<close>. There is one \<open>NaN\<close>: no operation
  of the program reads the sign or the payload of a NaN.
\<close>

datatype float64 = NaN | Infty bool | Fin bool int int

text \<open>The number of binary digits of a positive integer, and the powers of two.\<close>

function bitlen :: "int \<Rightarrow> int" where
  "bitlen n = (if n \<le> 0 then 0 else 1 + bitlen (n div 2))"
  by pat_completeness auto
termination
  by (relation "measure nat") auto

declare bitlen.simps [simp del]

function pow2 :: "int \<Rightarrow> int" where
  "pow2 k = (if k \<le> 0 then 1 else 2 * pow2 (k - 1))"
  by pat_completeness auto
termination
  by (relation "measure nat") auto

declare pow2.simps [simp del]

text \<open>
  \<open>round64 s n d\<close> rounds the rational \<open>n / d\<close> (\<open>0 \<le> n\<close>, \<open>0 < d\<close>) to the nearest
  binary64 number of sign \<open>s\<close>, ties to the even mantissa. \<open>floorLog2 n d\<close> is the binary
  logarithm of the quotient, rounded down; 52 below it, but not below -1074, is the
  exponent \<open>e\<close> of the last mantissa bit. \<open>roundHalfEven\<close> rounds the mantissa
  \<open>n / (d * 2\<^sup>e)\<close> to an integer. \<open>normalise\<close> moves a mantissa that was rounded up to
  \<open>2\<^sup>5\<^sup>3\<close> to the next exponent, and gives the infinity for an exponent above 971.
\<close>

definition floorLog2 :: "int \<Rightarrow> int \<Rightarrow> int" where
  "floorLog2 n d =
     (let t = bitlen n - bitlen d in if n * pow2 (- t) < d * pow2 t then t - 1 else t)"

definition roundHalfEven :: "int \<Rightarrow> int \<Rightarrow> int" where
  "roundHalfEven num den =
     (let q = num div den; r = num mod den
      in if den < 2 * r \<or> (2 * r = den \<and> odd q) then q + 1 else q)"

definition normalise :: "bool \<Rightarrow> int \<Rightarrow> int \<Rightarrow> float64" where
  "normalise s m e =
     (let e' = (if m = 9007199254740992 then e + 1 else e);
          m' = (if m = 9007199254740992 then 4503599627370496 else m)
      in if 971 < e' then Infty s else Fin s m' e')"

definition round64 :: "bool \<Rightarrow> int \<Rightarrow> int \<Rightarrow> float64" where
  "round64 s n d =
     (if n = 0 then Fin s 0 (- 1074)
      else
        let e = max (floorLog2 n d - 52) (- 1074)
        in normalise s (roundHalfEven (n * pow2 (- e)) (d * pow2 e)) e)"

text \<open>The conversion \<open>float64(i)\<close> of an integer.\<close>

definition ofInt :: "int \<Rightarrow> float64" where
  "ofInt i = round64 (i < 0) \<bar>i\<bar> 1"

text \<open>
  Multiplication and division round the exact result. Division by zero does not
  panic for floating-point operands in the Go implementation: it gives an infinity,
  and \<open>0 / 0\<close> gives NaN.
\<close>

fun fmul :: "float64 \<Rightarrow> float64 \<Rightarrow> float64" where
  "fmul (Fin s1 m1 e1) (Fin s2 m2 e2) =
     round64 (s1 \<noteq> s2) (m1 * m2 * pow2 (e1 + e2)) (pow2 (- (e1 + e2)))"
| "fmul (Infty s1) (Fin s2 m2 e2) = (if m2 = 0 then NaN else Infty (s1 \<noteq> s2))"
| "fmul (Fin s1 m1 e1) (Infty s2) = (if m1 = 0 then NaN else Infty (s1 \<noteq> s2))"
| "fmul (Infty s1) (Infty s2) = Infty (s1 \<noteq> s2)"
| "fmul NaN _ = NaN"
| "fmul _ NaN = NaN"

fun fdiv :: "float64 \<Rightarrow> float64 \<Rightarrow> float64" where
  "fdiv (Fin s1 m1 e1) (Fin s2 m2 e2) =
     (if m2 = 0 then (if m1 = 0 then NaN else Infty (s1 \<noteq> s2))
      else round64 (s1 \<noteq> s2) (m1 * pow2 (e1 - e2)) (m2 * pow2 (e2 - e1)))"
| "fdiv (Infty s1) (Fin s2 m2 e2) = Infty (s1 \<noteq> s2)"
| "fdiv (Fin s1 m1 e1) (Infty s2) = Fin (s1 \<noteq> s2) 0 (- 1074)"
| "fdiv (Infty s1) (Infty s2) = NaN"
| "fdiv NaN _ = NaN"
| "fdiv _ NaN = NaN"

text \<open>The comparison \<open>a > b\<close>: false when an operand is NaN; the two zeros are equal.\<close>

definition signedMant :: "bool \<Rightarrow> int \<Rightarrow> int" where
  "signedMant s m = (if s then - m else m)"

fun fgt :: "float64 \<Rightarrow> float64 \<Rightarrow> bool" where
  "fgt (Fin s1 m1 e1) (Fin s2 m2 e2) =
     (signedMant s2 m2 * pow2 (e2 - e1) < signedMant s1 m1 * pow2 (e1 - e2))"
| "fgt (Infty s1) (Fin s2 m2 e2) = (\<not> s1)"
| "fgt (Fin s1 m1 e1) (Infty s2) = s2"
| "fgt (Infty s1) (Infty s2) = (\<not> s1 \<and> s2)"
| "fgt NaN _ = False"
| "fgt _ NaN = False"

fun isFinite :: "float64 \<Rightarrow> bool" where
  "isFinite (Fin s m e) = True"
| "isFinite _ = False"

section \<open>The classifier (main.go)\<close>

text \<open>
  The class names are Go strings. The counters and the lengths are Go's \<open>int\<close>
  (64 bits); they are modelled as unbounded integers: a counter grows by one for each
  token read and a sentence set by one for each sentence, so none of them comes near
  \<open>2\<^sup>6\<^sup>3\<close> on a corpus that fits in memory.
\<close>

definition positive :: string where
  "positive = ''positive''"

definition negative :: string where
  "negative = ''negative''"

record wordFrequency =
  word :: string
  counter :: "string \<rightharpoonup> int"

text \<open>
  The map \<open>words\<close> is ranged over by \<open>wordCount\<close> and \<open>totalDistinctWordCount\<close>, in an
  order Go leaves unspecified: it is modelled by the list of its entries, one for each
  key, and a range loop is a fold over that list. The other maps are only read and
  written at a key: they are partial functions.
\<close>

record classifier =
  dataset :: "string \<rightharpoonup> string list"
  words :: "(string \<times> wordFrequency) list"

text \<open>Reading a Go map at a key gives the zero value when the key is missing.\<close>

definition intAt :: "(string \<rightharpoonup> int) \<Rightarrow> string \<Rightarrow> int" where
  "intAt m k = (case m k of None \<Rightarrow> 0 | Some n \<Rightarrow> n)"

definition sentencesOf :: "classifier \<Rightarrow> string \<Rightarrow> string list" where
  "sentencesOf c cl = (case dataset c cl of None \<Rightarrow> [] | Some ss \<Rightarrow> ss)"

definition floatAt :: "(string \<rightharpoonup> float64) \<Rightarrow> string \<Rightarrow> float64" where
  "floatAt m k = (case m k of None \<Rightarrow> Fin False 0 (- 1074) | Some x \<Rightarrow> x)"

definition newClassifier :: classifier where
  "newClassifier = \<lparr>dataset = Map.empty, words = []\<rparr>"

definition addSentence :: "classifier \<Rightarrow> string \<Rightarrow> string \<Rightarrow> classifier" where
  "addSentence c sentence cl =
     c\<lparr>dataset := (dataset c)(cl \<mapsto> sentencesOf c cl @ [sentence])\<rparr>"

definition addWord :: "classifier \<Rightarrow> string \<Rightarrow> string \<Rightarrow> classifier" where
  "addWord c w cl =
     (let wfq = (case map_of (words c) w of
                  Some wfq \<Rightarrow> wfq
                | None \<Rightarrow> \<lparr>word = w, counter = [positive \<mapsto> 0, negative \<mapsto> 0]\<rparr>);
          wfq' = wfq\<lparr>counter := (counter wfq)(cl \<mapsto> intAt (counter wfq) cl + 1)\<rparr>
      in c\<lparr>words := AList.update w wfq' (words c)\<rparr>)"

text \<open>
  \<open>train\<close> ranges over the corpus, a Go map from sentences to classes: \<open>kvs\<close> is the
  list of its entries in the order of that run of the loop.
\<close>

definition trainEntry :: "(rune \<Rightarrow> rune) \<Rightarrow> classifier \<Rightarrow> string \<times> string \<Rightarrow> classifier" where
  "trainEntry ul c kv =
     (case kv of (sentence, cl) \<Rightarrow>
        foldl (\<lambda>c w. addWord c w cl) (addSentence c sentence cl) (tokenize ul sentence))"

definition train :: "(rune \<Rightarrow> rune) \<Rightarrow> classifier \<Rightarrow> (string \<times> string) list \<Rightarrow> classifier" where
  "train ul c kvs = foldl (trainEntry ul) c kvs"

definition priorProb :: "classifier \<Rightarrow> string \<Rightarrow> float64" where
  "priorProb c cl =
     (let classCount = ofInt (int (length (sentencesOf c cl)));
          totalCount = ofInt (int (length (sentencesOf c positive)
                                   + length (sentencesOf c negative)))
      in fdiv classCount totalCount)"

text \<open>The parameter \<open>cl\<close> of \<open>wordCount\<close> is not used by its body, as in the source.\<close>

definition wordCount :: "classifier \<Rightarrow> string \<Rightarrow> int" where
  "wordCount c cl = foldl (\<lambda>count kv. count + intAt (counter (snd kv)) positive) 0 (words c)"

definition totalWordCount :: "classifier \<Rightarrow> int" where
  "totalWordCount c = wordCount c positive + wordCount c negative"

definition zeroOneTransform :: "int \<Rightarrow> int" where
  "zeroOneTransform x = (if x = 0 then 0 else 1)"

definition totalDistinctWordCount :: "classifier \<Rightarrow> int" where
  "totalDistinctWordCount c =
     (case foldl (\<lambda>pn kv.
             (fst pn + zeroOneTransform (intAt (counter (snd kv)) positive),
              snd pn + zeroOneTransform (intAt (counter (snd kv)) negative)))
           (0, 0) (words c)
      of (posCount, negCount) \<Rightarrow> posCount + negCount)"

text \<open>The two loops of \<open>probability\<close>, each over the tokens from left to right.\<close>

definition probability :: "classifier \<Rightarrow> string list \<Rightarrow> string \<Rightarrow> float64" where
  "probability c ws cl =
     (let prob = priorProb c cl;
          prob = foldl (\<lambda>prob w.
                   let count = (case map_of (words c) w of
                                  Some wfq \<Rightarrow> intAt (counter wfq) cl
                                | None \<Rightarrow> 0)
                   in fmul prob (fdiv (ofInt (count + 1))
                                   (ofInt (wordCount c cl + totalDistinctWordCount c))))
                 prob ws;
          prob = foldl (\<lambda>prob w.
                   let count = (case map_of (words c) w of
                                  Some wfq \<Rightarrow> intAt (counter wfq) positive
                                              + intAt (counter wfq) negative
                                | None \<Rightarrow> 0)
                   in fdiv prob (fdiv (ofInt (count + 1))
                                   (ofInt (totalWordCount c + totalDistinctWordCount c))))
                 prob ws
      in prob)"

definition classify :: "(rune \<Rightarrow> rune) \<Rightarrow> classifier \<Rightarrow> string \<Rightarrow> (string \<rightharpoonup> float64)" where
  "classify ul c sentence =
     (let ws = tokenize ul sentence;
          posProb = probability c ws positive;
          negProb = probability c ws negative
      in [positive \<mapsto> posProb, negative \<mapsto> negProb])"

text \<open>The choice of the class in the loop of \<open>main\<close>, from the result of \<open>classify\<close>.\<close>

definition mainClass :: "(string \<rightharpoonup> float64) \<Rightarrow> string" where
  "mainClass result =
     (if fgt (floatAt result positive) (floatAt result negative) then positive else negative)"

section \<open>Definitions that follow the specification\<close>

subsection \<open>The tokenizer as the specification describes it\<close>

text \<open>
  The specification gives four steps: case-fold to lower case; remove every character
  that is not an ASCII letter, an ASCII digit or a space; split on runs of white space
  and discard the empty fragments; filter out the stop words, keeping the order.
  \<open>spec_fragments\<close> cuts a string at every white-space character.
\<close>

definition spec_isLetter :: "rune \<Rightarrow> bool" where
  "spec_isLetter r = ((of_char CHR ''a'' \<le> r \<and> r \<le> of_char CHR ''z'')
                      \<or> (of_char CHR ''A'' \<le> r \<and> r \<le> of_char CHR ''Z''))"

definition spec_isDigit :: "rune \<Rightarrow> bool" where
  "spec_isDigit r = (of_char CHR ''0'' \<le> r \<and> r \<le> of_char CHR ''9'')"

definition spec_isAllowed :: "rune \<Rightarrow> bool" where
  "spec_isAllowed r = (spec_isLetter r \<or> spec_isDigit r \<or> r = of_char CHR '' '')"

fun spec_fragments :: "string \<Rightarrow> string list" where
  "spec_fragments [] = [[]]"
| "spec_fragments (c # cs) =
     (if isSpace c then [] # spec_fragments cs
      else (c # hd (spec_fragments cs)) # tl (spec_fragments cs))"

definition spec_split :: "string \<Rightarrow> string list" where
  "spec_split s = filter (\<lambda>f. f \<noteq> []) (spec_fragments s)"

definition spec_tokenize :: "(rune \<Rightarrow> rune) \<Rightarrow> string \<Rightarrow> string list" where
  "spec_tokenize ul s =
     filter (\<lambda>w. w \<notin> set stopWords)
       (spec_split (map char_of (filter spec_isAllowed (toLower ul s))))"

text \<open>
  What a token is made of: a lower-case ASCII letter or an ASCII digit is \<open>lowerAlnum\<close>,
  and a \<open>plainWord\<close> is a string of such characters that is not empty.
\<close>

definition lowerAlnum :: "char \<Rightarrow> bool" where
  "lowerAlnum c = ((0x61 \<le> (of_char c :: int) \<and> (of_char c :: int) \<le> 0x7A)
                   \<or> (0x30 \<le> (of_char c :: int) \<and> (of_char c :: int) \<le> 0x39))"

definition plainWord :: "string \<Rightarrow> bool" where
  "plainWord w = (w \<noteq> [] \<and> (\<forall>c \<in> set w. lowerAlnum c))"

text \<open>
  \<open>join\<close> is the \<open>tokenize_join\<close> of the specification's testable properties: the tokens
  with one space between neighbours.
\<close>

fun join :: "string list \<Rightarrow> string" where
  "join [] = []"
| "join [w] = w"
| "join (w # v # ws) = w @ '' '' @ join (v # ws)"

text \<open>
  What the idempotence of \<open>tokenize\<close> needs of the lower-case table: no rune from U+0080
  on has an ASCII upper-case letter as its lower case.
\<close>

definition noUpper :: "(rune \<Rightarrow> rune) \<Rightarrow> bool" where
  "noUpper ul = (\<forall>r. 0x80 \<le> r \<longrightarrow> \<not> (0x41 \<le> ul r \<and> ul r \<le> 0x5A))"

text \<open>
  A table to run the model on strings that are not ASCII: it has the two runes whose
  lower case is an ASCII letter (U+0130 and the Kelvin sign U+212A) and leaves every
  other rune alone.
\<close>

definition sampleLower :: "rune \<Rightarrow> rune" where
  "sampleLower r = (if r = 0x130 then 0x69 else if r = 0x212A then 0x6B else r)"

text \<open>
  The bytes of \<open>T\<close>, U+0130, \<open>p\<close>, U+212A, space, U+00C9, \<open>t\<close>, U+00E9, the byte FF (not
  UTF-8), space, \<open>A\<close>, line feed, U+1F600.
\<close>

definition sampleSentence :: string where
  "sampleSentence =
     [CHR ''T'', CHR 0xC4, CHR 0xB0, CHR ''p'', CHR 0xE2, CHR 0x84, CHR 0xAA, CHR '' '',
      CHR 0xC3, CHR 0x89, CHR ''t'', CHR 0xC3, CHR 0xA9, CHR 0xFF, CHR '' '', CHR ''A'',
      CHR 0x0A, CHR 0xF0, CHR 0x9F, CHR 0x98, CHR 0x80]"

subsection \<open>The frequency table as the specification describes it\<close>

text \<open>
  \<open>count(token, class)\<close>: the stored counter, or zero if the token is unknown.
\<close>

definition spec_count :: "classifier \<Rightarrow> string \<Rightarrow> string \<Rightarrow> int" where
  "spec_count c w cl =
     (case map_of (words c) w of None \<Rightarrow> 0 | Some wfq \<Rightarrow> intAt (counter wfq) cl)"

text \<open>
  What a corpus holds: the occurrences of a token in the sentences of a class, and the
  number of sentences of a class.
\<close>

definition spec_occurrences ::
  "(rune \<Rightarrow> rune) \<Rightarrow> (string \<times> string) list \<Rightarrow> string \<Rightarrow> string \<Rightarrow> int" where
  "spec_occurrences ul kvs w cl =
     sum_list (map (\<lambda>kv. if snd kv = cl then int (count_list (tokenize ul (fst kv)) w) else 0)
                 kvs)"

definition spec_labelled :: "(string \<times> string) list \<Rightarrow> string \<Rightarrow> nat" where
  "spec_labelled kvs cl = length (filter (\<lambda>kv. snd kv = cl) kvs)"

text \<open>The corpus of the specification's testable properties.\<close>

definition corpusA :: "(string \<times> string) list" where
  "corpusA = [(''good good good'', positive), (''bad bad'', negative)]"

text \<open>
  \<open>classWordCount(class)\<close>: the sum, over all known tokens, of that class's counter;
  \<open>totalWordCount()\<close>: its sum over both classes; \<open>distinctWordCount()\<close>: the sum, over
  both classes, of the number of tokens whose counter for that class is strictly
  positive; \<open>totalOccurrences(token)\<close>: the token's counter summed over both classes.
\<close>

definition spec_classWordCount :: "classifier \<Rightarrow> string \<Rightarrow> int" where
  "spec_classWordCount c cl = sum_list (map (\<lambda>kv. intAt (counter (snd kv)) cl) (words c))"

definition spec_totalWordCount :: "classifier \<Rightarrow> int" where
  "spec_totalWordCount c = spec_classWordCount c positive + spec_classWordCount c negative"

definition spec_distinctWordCount :: "classifier \<Rightarrow> int" where
  "spec_distinctWordCount c =
     int (length (filter (\<lambda>kv. 0 < intAt (counter (snd kv)) positive) (words c)))
     + int (length (filter (\<lambda>kv. 0 < intAt (counter (snd kv)) negative) (words c)))"

definition spec_totalOccurrences :: "classifier \<Rightarrow> string \<Rightarrow> int" where
  "spec_totalOccurrences c w = spec_count c w positive + spec_count c w negative"

text \<open>
  \<open>probability(tokens, class)\<close> of the specification: from the prior probability, a
  first pass over the tokens multiplies, a second pass over the same tokens divides.
  \<open>spec_formula\<close> has the three word counts as parameters; \<open>spec_probability\<close> takes
  them as the specification defines them.
\<close>

definition spec_formula ::
  "int \<Rightarrow> int \<Rightarrow> int \<Rightarrow> classifier \<Rightarrow> string list \<Rightarrow> string \<Rightarrow> float64" where
  "spec_formula classWords totalWords distinctWords c ws cl =
     foldl (\<lambda>p w. fdiv p (fdiv (ofInt (spec_totalOccurrences c w + 1))
                            (ofInt (totalWords + distinctWords))))
       (foldl (\<lambda>p w. fmul p (fdiv (ofInt (spec_count c w cl + 1))
                               (ofInt (classWords + distinctWords))))
          (priorProb c cl) ws)
       ws"

definition spec_probability :: "classifier \<Rightarrow> string list \<Rightarrow> string \<Rightarrow> float64" where
  "spec_probability c ws cl =
     spec_formula (spec_classWordCount c cl) (spec_totalWordCount c) (spec_distinctWordCount c)
       c ws cl"

text \<open>
  The invariant of the frequency table: every entry has a counter for both classes.
\<close>

definition bothClasses :: "classifier \<Rightarrow> bool" where
  "bothClasses c =
     (\<forall>kv \<in> set (words c).
        counter (snd kv) positive \<noteq> None \<and> counter (snd kv) negative \<noteq> None)"

text \<open>
  The \<open>addWord\<close> calls of a run of \<open>train\<close>, in their order: a pair of a token and a
  class for every token of every sentence.
\<close>

definition spec_votes ::
  "(rune \<Rightarrow> rune) \<Rightarrow> (string \<times> string) list \<Rightarrow> (string \<times> string) list" where
  "spec_votes ul kvs = concat (map (\<lambda>kv. map (\<lambda>w. (w, snd kv)) (tokenize ul (fst kv))) kvs)"

text \<open>
  The life of a classifier after \<open>newClassifier\<close>: \<open>train\<close> and \<open>classify\<close> in any order.
  \<open>classify\<close> and what it calls only read the classifier, so the state after it is
  the state before.
\<close>

datatype operation = Train "(string \<times> string) list" | Classify string

fun exec :: "(rune \<Rightarrow> rune) \<Rightarrow> classifier \<Rightarrow> operation \<Rightarrow> classifier" where
  "exec ul c (Train kvs) = train ul c kvs"
| "exec ul c (Classify s) = c"

section \<open>Properties of the tokenizer\<close>

lemma filter_dropWhile_not: "filter P (dropWhile (\<lambda>x. \<not> P x) xs) = filter P xs"
  by (induction xs) auto

lemma replaceAllLiteral_filter: "replaceAllLiteral rs = filter inClass rs"
  by (induction rs rule: replaceAllLiteral.induct) (auto simp: filter_dropWhile_not)

lemma inClass_spec: "inClass r = spec_isAllowed r"
  by (auto simp: inClass_def spec_isAllowed_def spec_isLetter_def spec_isDigit_def)

lemma spec_fragments_nonempty: "spec_fragments s \<noteq> []"
  by (induction s) auto

lemma fieldsFrom_fragments:
  "fieldsFrom cur s =
     filter (\<lambda>f. f \<noteq> []) ((cur @ hd (spec_fragments s)) # tl (spec_fragments s))"
proof (induction s arbitrary: cur)
  case Nil
  show ?case by simp
next
  case (Cons c cs)
  have ne: "hd (spec_fragments cs) # tl (spec_fragments cs) = spec_fragments cs"
    using spec_fragments_nonempty [of cs] by simp
  show ?case
  proof (cases "isSpace c")
    case True
    have "fieldsFrom [] cs = filter (\<lambda>f. f \<noteq> []) (spec_fragments cs)"
      using Cons.IH [of "[]"] ne by simp
    with True show ?thesis by simp
  next
    case False
    then show ?thesis using Cons.IH [of "cur @ [c]"] by simp
  qed
qed

lemma fields_spec_split: "stringsFields s = spec_split s"
  using fieldsFrom_fragments [of "[]" s] spec_fragments_nonempty [of s]
  by (simp add: stringsFields_def spec_split_def)

lemma append_loop_filter:
  "foldl (\<lambda>tokens w. if P w then tokens @ [w] else tokens) acc ws = acc @ filter P ws"
  by (induction ws arbitrary: acc) auto

lemma tokenize_filter:
  "tokenize ul s = filter (\<lambda>w. \<not> isStopWord w) (stringsFields (clenup ul s))"
  by (simp add: tokenize_def append_loop_filter)

lemma tokenize_refines: "tokenize ul s = spec_tokenize ul s"
  by (simp add: tokenize_filter spec_tokenize_def clenup_def replaceAllLiteral_filter
      fields_spec_split isStopWord_def inClass_spec [abs_def])

lemma tokenize_sample: "tokenize sampleLower sampleSentence = [''tipk'', ''t'']"
  by code_simp

text \<open>
  Claim C6. \<open>tokenize\<close> is the pipeline of the specification: it lower-cases the
  sentence, deletes every character that is not an ASCII letter, an ASCII digit or a
  space, splits the rest on runs of white space and drops the stop words, the other
  tokens staying in their order. "The restaurant is excellent" gives the tokens
  "restaurant" and "excellent", and "The, is! a" gives none.
\<close>

theorem tokenize_pipeline:
  "tokenize ul s = spec_tokenize ul s
   \<and> tokenize ul ''The restaurant is excellent'' = [''restaurant'', ''excellent'']
   \<and> tokenize ul ''The, is! a'' = []"
proof -
  have "tokenize ul ''The restaurant is excellent'' = [''restaurant'', ''excellent'']"
    by code_simp
  moreover have "tokenize ul ''The, is! a'' = []"
    by code_simp
  ultimately show ?thesis
    by (simp add: tokenize_refines)
qed

theorem tokenize_pipeline_witness:
  "spec_tokenize sampleLower sampleSentence = [''tipk'', ''t'']
   \<and> tokenize sampleLower ''The restaurant is excellent'' = [''restaurant'', ''excellent'']"
  using tokenize_pipeline [of sampleLower sampleSentence] tokenize_sample by simp

subsection \<open>Tokenizing what was tokenized\<close>

lemma runes_ascii: "\<forall>c \<in> set s. (of_char c :: int) < 0x80 \<Longrightarrow> runes s = map of_char s"
proof (induction s)
  case Nil
  show ?case by (subst runes.simps) simp
next
  case (Cons c cs)
  then have "decodeRune (c # cs) = (of_char c, 1)" by simp
  then show ?case using Cons by (subst runes.simps) simp
qed

lemma toLowerRune_class:
  assumes "noUpper ul" "inClass (toLowerRune ul r)"
  shows "lowerAlnum (char_of (toLowerRune ul r)) \<or> char_of (toLowerRune ul r) = CHR '' ''"
proof -
  let ?q = "toLowerRune ul r"
  have nu: "\<not> (0x41 \<le> ?q \<and> ?q \<le> 0x5A)"
    using assms(1) by (auto simp: toLowerRune_def noUpper_def)
  have lt: "0 \<le> ?q \<and> ?q < 256" using assms(2) by (auto simp: inClass_def)
  then have oc: "(of_char (char_of ?q :: char) :: int) = ?q" by (simp add: of_char_of)
  show ?thesis
  proof (cases "?q = 0x20")
    case True
    then show ?thesis by (simp add: char_of_eq_iff)
  next
    case False
    with nu assms(2) oc show ?thesis by (auto simp: inClass_def lowerAlnum_def)
  qed
qed

lemma clenup_chars:
  assumes "noUpper ul" "c \<in> set (clenup ul s)"
  shows "lowerAlnum c \<or> c = CHR '' ''"
proof -
  from assms(2) obtain r where "c = char_of (toLowerRune ul r)" "inClass (toLowerRune ul r)"
    by (auto simp: clenup_def replaceAllLiteral_filter toLower_def)
  with toLowerRune_class [OF assms(1), of r] show ?thesis by simp
qed

lemma lowerAlnum_not_space: "lowerAlnum c \<Longrightarrow> \<not> isSpace c"
  by (auto simp: lowerAlnum_def isSpace_def)

lemma fieldsFrom_plain:
  assumes "\<forall>c \<in> set s. lowerAlnum c \<or> c = CHR '' ''" "\<forall>c \<in> set cur. lowerAlnum c"
    "w \<in> set (fieldsFrom cur s)"
  shows "plainWord w"
  using assms
proof (induction s arbitrary: cur)
  case Nil
  then show ?case by (auto simp: plainWord_def split: if_splits)
next
  case (Cons c cs)
  show ?case
  proof (cases "isSpace c")
    case True
    with Cons.prems(3) have "w = cur \<and> cur \<noteq> [] \<or> w \<in> set (fieldsFrom [] cs)"
      by (auto split: if_splits)
    then show ?thesis
    proof
      assume "w = cur \<and> cur \<noteq> []"
      with Cons.prems(2) show ?thesis by (simp add: plainWord_def)
    next
      assume "w \<in> set (fieldsFrom [] cs)"
      with Cons.IH [of "[]"] Cons.prems(1) show ?thesis by simp
    qed
  next
    case False
    with Cons.prems(1) have "lowerAlnum c" by (auto simp: isSpace_def)
    with False Cons.prems Cons.IH [of "cur @ [c]"] show ?thesis by auto
  qed
qed

lemma tokenize_plain:
  assumes "noUpper ul" "w \<in> set (tokenize ul s)"
  shows "plainWord w \<and> \<not> isStopWord w"
proof -
  from assms(2) have w: "w \<in> set (fieldsFrom [] (clenup ul s))" and n: "\<not> isStopWord w"
    by (auto simp: tokenize_filter stringsFields_def)
  have "\<forall>c \<in> set (clenup ul s). lowerAlnum c \<or> c = CHR '' ''"
    using clenup_chars [OF assms(1)] by blast
  from fieldsFrom_plain [OF this _ w] n show ?thesis by simp
qed

lemma fieldsFrom_word:
  "\<forall>c \<in> set w. \<not> isSpace c \<Longrightarrow> fieldsFrom cur (w @ s) = fieldsFrom (cur @ w) s"
  by (induction w arbitrary: cur) auto

lemma fields_join:
  "\<forall>w \<in> set ws. plainWord w \<Longrightarrow> fieldsFrom [] (join ws) = ws"
proof (induction ws rule: join.induct)
  case 1
  show ?case by simp
next
  case (2 w)
  then have "\<forall>c \<in> set w. \<not> isSpace c" "w \<noteq> []"
    by (auto simp: plainWord_def lowerAlnum_not_space)
  then show ?case using fieldsFrom_word [of w "[]" "[]"] by simp
next
  case (3 w v ws)
  then have "\<forall>c \<in> set w. \<not> isSpace c" "w \<noteq> []"
    by (auto simp: plainWord_def lowerAlnum_not_space)
  then have "fieldsFrom [] (w @ '' '' @ join (v # ws)) = w # fieldsFrom [] (join (v # ws))"
    using fieldsFrom_word [of w "[]" "'' '' @ join (v # ws)"] by (simp add: isSpace_def)
  with 3 show ?case by simp
qed

lemma join_chars:
  "\<forall>w \<in> set ws. plainWord w \<Longrightarrow> c \<in> set (join ws) \<Longrightarrow> lowerAlnum c \<or> c = CHR '' ''"
  by (induction ws rule: join.induct) (auto simp: plainWord_def)

lemma clenup_clean:
  assumes "\<forall>c \<in> set s. lowerAlnum c \<or> c = CHR '' ''"
  shows "clenup ul s = s"
proof -
  have pt: "(of_char c :: int) < 0x80 \<and> toLowerRune ul (of_char c) = of_char c
              \<and> inClass (of_char c)" if "c \<in> set s" for c
  proof -
    from that assms have "lowerAlnum c \<or> c = CHR '' ''" by blast
    then show ?thesis
    proof
      assume "lowerAlnum c"
      then show ?thesis by (auto simp: lowerAlnum_def toLowerRune_def inClass_def)
    next
      assume "c = CHR '' ''"
      then show ?thesis by (simp add: toLowerRune_def inClass_def)
    qed
  qed
  have asc: "\<forall>c \<in> set s. (of_char c :: int) < 0x80"
    using pt by blast
  have low: "map (toLowerRune ul) (map of_char s) = map of_char s"
    by (simp add: pt)
  have cls: "filter inClass (map of_char s) = map of_char s"
    unfolding filter_id_conv using pt by auto
  have "clenup ul s = map char_of (filter inClass (map (toLowerRune ul) (map of_char s)))"
    by (simp only: clenup_def toLower_def runes_ascii [OF asc] replaceAllLiteral_filter)
  also have "\<dots> = map char_of (map (of_char :: char \<Rightarrow> int) s)"
    by (simp only: low cls)
  also have "\<dots> = s"
    by simp
  finally show ?thesis .
qed

lemma noUpper_sampleLower: "noUpper sampleLower"
  by (auto simp: noUpper_def sampleLower_def)

text \<open>
  Claim C8. Tokenizing the tokens of a sentence, joined by single spaces, gives these
  tokens again, for every sentence. (The lower-case table must not turn a rune from
  U+0080 on into an ASCII upper-case letter; Unicode's does not.)
\<close>

theorem tokenize_idempotent:
  assumes "noUpper ul"
  shows "tokenize ul (join (tokenize ul s)) = tokenize ul s"
proof -
  define T where "T = tokenize ul s"
  have pl: "\<forall>w \<in> set T. plainWord w" and ns: "\<forall>w \<in> set T. \<not> isStopWord w"
    using tokenize_plain [OF assms] unfolding T_def by blast+
  have "clenup ul (join T) = join T"
    using join_chars [OF pl] by (intro clenup_clean) blast
  then have "tokenize ul (join T) = filter (\<lambda>w. \<not> isStopWord w) T"
    by (simp add: tokenize_filter stringsFields_def fields_join [OF pl])
  also have "\<dots> = T" using ns by (simp add: filter_id_conv)
  finally show ?thesis unfolding T_def .
qed

theorem tokenize_idempotent_witness:
  "noUpper sampleLower
   \<and> tokenize sampleLower (join (tokenize sampleLower sampleSentence))
       = tokenize sampleLower sampleSentence
   \<and> join (tokenize sampleLower sampleSentence) = ''tipk t''"
  using tokenize_idempotent [OF noUpper_sampleLower, of sampleSentence] noUpper_sampleLower
    tokenize_sample
  by simp

section \<open>Properties of the floating-point operations\<close>

lemma pow2_eq: "pow2 k = 2 ^ nat k"
proof (induction k rule: pow2.induct)
  case (1 k)
  show ?case
  proof (cases "k \<le> 0")
    case True
    then show ?thesis by (subst pow2.simps) simp
  next
    case False
    then have "nat k = Suc (nat (k - 1))" by simp
    with False 1 show ?thesis by (subst pow2.simps) simp
  qed
qed

lemma pow2_pos: "0 < pow2 k"
  by (simp add: pow2_eq)

lemma pow2_mono: "a \<le> b \<Longrightarrow> pow2 a \<le> pow2 b"
  by (simp add: pow2_eq nat_mono power_increasing)

lemma bitlen_nonneg: "0 \<le> bitlen n"
proof (induction n rule: bitlen.induct)
  case (1 n)
  then show ?case by (subst bitlen.simps) auto
qed

lemma bitlen_pos: "0 < n \<Longrightarrow> 1 \<le> bitlen n"
  using bitlen_nonneg [of "n div 2"] by (subst bitlen.simps) simp

lemma bitlen_bound: "n < 2 ^ k \<Longrightarrow> bitlen n \<le> int k"
proof (induction k arbitrary: n)
  case 0
  then show ?case by (subst bitlen.simps) simp
next
  case (Suc k)
  show ?case
  proof (cases "n \<le> 0")
    case True
    then show ?thesis by (subst bitlen.simps) simp
  next
    case False
    from Suc.prems have "n div 2 < 2 ^ k" by simp
    then have "bitlen (n div 2) \<le> int k" by (rule Suc.IH)
    with False show ?thesis by (subst bitlen.simps) simp
  qed
qed

lemma bitlen_lower: "0 < n \<Longrightarrow> pow2 (bitlen n - 1) \<le> n"
proof (induction n rule: bitlen.induct)
  case (1 n)
  then have n: "\<not> n \<le> 0" by simp
  have b: "bitlen n = 1 + bitlen (n div 2)" using n by (subst bitlen.simps) simp
  show ?case
  proof (cases "0 < n div 2")
    case True
    with 1 n have ih: "pow2 (bitlen (n div 2) - 1) \<le> n div 2" by simp
    have "\<not> bitlen (n div 2) \<le> 0" using bitlen_pos [OF True] by simp
    then have "pow2 (bitlen (n div 2)) = 2 * pow2 (bitlen (n div 2) - 1)"
      by (subst pow2.simps) simp
    with ih b show ?thesis by simp
  next
    case False
    with 1 have "n = 1" by simp
    then have "bitlen n = 1" by (simp add: bitlen.simps)
    then show ?thesis using \<open>n = 1\<close> by (simp add: pow2.simps)
  qed
qed

lemma floorLog2_range:
  "bitlen n - bitlen d - 1 \<le> floorLog2 n d \<and> floorLog2 n d \<le> bitlen n - bitlen d"
  by (simp add: floorLog2_def Let_def)

lemma roundHalfEven_range:
  "num div den \<le> roundHalfEven num den \<and> roundHalfEven num den \<le> num div den + 1"
  by (simp add: roundHalfEven_def Let_def)

lemma normalise_Fin:
  assumes "e \<le> 970"
  shows "\<exists>m' e'. normalise s m e = Fin s m' e' \<and> (m' = m \<or> m' = 4503599627370496)
                  \<and> e \<le> e' \<and> e' \<le> e + 1"
  using assms by (simp add: normalise_def Let_def)

lemma round64_zero: "round64 s 0 d = Fin s 0 (- 1074)"
  by (simp add: round64_def)

lemma round64_finite:
  assumes "bitlen n - bitlen d \<le> 1000"
  shows "isFinite (round64 s n d)"
proof (cases "n = 0")
  case True
  then show ?thesis by (simp add: round64_zero)
next
  case False
  define e where "e = max (floorLog2 n d - 52) (- 1074)"
  have "e \<le> 970" using floorLog2_range [of n d] assms by (simp add: e_def)
  from normalise_Fin [OF this] obtain m' e'
    where "normalise s (roundHalfEven (n * pow2 (- e)) (d * pow2 e)) e = Fin s m' e'"
    by blast
  with False show ?thesis by (simp add: round64_def Let_def e_def)
qed

lemma ofInt_zero: "ofInt 0 = Fin False 0 (- 1074)"
  by (simp add: ofInt_def round64_zero)

lemma ofInt_pos:
  assumes "0 < a" "a < 2 ^ 63"
  shows "\<exists>m e. ofInt a = Fin False m e \<and> 0 < m \<and> m \<le> 2 ^ 116 \<and> - 53 \<le> e \<and> e \<le> 11"
proof -
  define l where "l = floorLog2 a 1"
  define e where "e = max (l - 52) (- 1074)"
  define num where "num = a * pow2 (- e)"
  define den where "den = 1 * pow2 e"
  define m where "m = roundHalfEven num den"
  have b1: "bitlen 1 = 1" by (simp add: bitlen.simps)
  have ba: "1 \<le> bitlen a" "bitlen a \<le> 63"
    using bitlen_pos [OF assms(1)] bitlen_bound [OF assms(2)] by simp_all
  have l: "- 1 \<le> l" "l \<le> 62" "l \<le> bitlen a - 1"
    using floorLog2_range [of a 1] ba by (simp_all add: l_def b1)
  have e: "e = l - 52" using l by (simp add: e_def)
  have er: "- 53 \<le> e" "e \<le> 10" using l e by simp_all
  have denpos: "0 < den" by (simp add: den_def pow2_pos)
  have "pow2 (- e) \<le> pow2 53" using er by (intro pow2_mono) simp
  then have "pow2 (- e) \<le> 2 ^ 53" by (simp add: pow2_eq)
  then have "num \<le> a * 2 ^ 53" using assms(1) by (simp add: num_def)
  also have "\<dots> < 2 ^ 63 * 2 ^ 53" using assms(2) by simp
  finally have numlt: "num < 2 ^ 116" by simp
  have numpos: "0 < num" using assms(1) by (simp add: num_def pow2_pos)
  have dennum: "den \<le> num"
  proof (cases "e \<le> 0")
    case True
    then have "den = 1" by (simp add: den_def pow2.simps)
    with numpos show ?thesis by simp
  next
    case False
    then have "pow2 (- e) = 1" by (simp add: pow2.simps)
    then have "num = a" by (simp add: num_def)
    moreover have "den \<le> pow2 (bitlen a - 1)"
      unfolding den_def using e l by (simp add: pow2_mono)
    ultimately show ?thesis using bitlen_lower [OF assms(1)] by simp
  qed
  have "0 < num div den"
    using dennum denpos pos_imp_zdiv_pos_iff [of den num] by blast
  then have q1: "1 \<le> num div den" by linarith
  have "num div den \<le> num div 1"
    using numpos denpos by (intro zdiv_mono2) simp_all
  then have qlt: "num div den < 2 ^ 116" using numlt by simp
  have m: "1 \<le> m" "m \<le> 2 ^ 116"
    using q1 qlt roundHalfEven_range [of num den] by (simp_all add: m_def)
  have "e \<le> 970" using er by simp
  from normalise_Fin [OF this] obtain m' e' where
    n: "normalise False m e = Fin False m' e'" "m' = m \<or> m' = 4503599627370496"
       "e \<le> e'" "e' \<le> e + 1"
    by blast
  have "ofInt a = normalise False m e"
    using assms(1) by (simp add: ofInt_def round64_def Let_def l_def e_def num_def den_def m_def)
  with n have "ofInt a = Fin False m' e'" by simp
  moreover have "0 < m'" "m' \<le> 2 ^ 116" using n(2) m by auto
  moreover have "- 53 \<le> e'" "e' \<le> 11" using n(3,4) er by simp_all
  ultimately show ?thesis by blast
qed

lemma fdiv_counts_finite:
  assumes "0 \<le> a" "a < 2 ^ 63" "0 < b" "b < 2 ^ 63"
  shows "isFinite (fdiv (ofInt a) (ofInt b))"
proof -
  from ofInt_pos [OF assms(3,4)] obtain m2 e2 where
    b: "ofInt b = Fin False m2 e2" "0 < m2" "- 53 \<le> e2" by blast
  show ?thesis
  proof (cases "a = 0")
    case True
    with b show ?thesis by (simp add: ofInt_zero round64_zero)
  next
    case False
    with assms(1) have "0 < a" by simp
    from ofInt_pos [OF this assms(2)] obtain m1 e1 where
      a: "ofInt a = Fin False m1 e1" "0 < m1" "m1 \<le> 2 ^ 116" "e1 \<le> 11" by blast
    have "pow2 (e1 - e2) \<le> pow2 64" using a(4) b(3) by (intro pow2_mono) simp
    then have "pow2 (e1 - e2) \<le> 2 ^ 64" by (simp add: pow2_eq)
    then have "m1 * pow2 (e1 - e2) \<le> 2 ^ 116 * 2 ^ 64"
      using a(2,3) pow2_pos [of "e1 - e2"] by (intro mult_mono) simp_all
    then have "m1 * pow2 (e1 - e2) < 2 ^ 181" by simp
    then have "bitlen (m1 * pow2 (e1 - e2)) \<le> 181" using bitlen_bound by fastforce
    moreover have "0 \<le> bitlen (m2 * pow2 (e2 - e1))" by (rule bitlen_nonneg)
    ultimately have "bitlen (m1 * pow2 (e1 - e2)) - bitlen (m2 * pow2 (e2 - e1)) \<le> 1000" by simp
    then have "isFinite (round64 False (m1 * pow2 (e1 - e2)) (m2 * pow2 (e2 - e1)))"
      by (rule round64_finite)
    with a b show ?thesis by simp
  qed
qed

lemma fgt_irrefl: "\<not> fgt x x"
  by (cases x) auto

text \<open>
  The model on numbers whose binary64 form is known: 0.1 is \<open>3FB999999999999A\<close>, one
  third is \<open>3FD5555555555555\<close>, and three times 0.1 is \<open>3FD3333333333334\<close>, not the
  number 0.3; \<open>2\<^sup>5\<^sup>3 + 1\<close> is a tie and rounds to the even mantissa.
\<close>

lemma float64_samples:
  "fdiv (ofInt 1) (ofInt 10) = Fin False 7205759403792794 (- 56)
   \<and> fdiv (ofInt 1) (ofInt 3) = Fin False 6004799503160661 (- 54)
   \<and> fmul (fdiv (ofInt 1) (ofInt 10)) (ofInt 3) = Fin False 5404319552844596 (- 54)
   \<and> fdiv (ofInt 3) (ofInt 10) = Fin False 5404319552844595 (- 54)
   \<and> ofInt 9007199254740993 = Fin False 4503599627370496 1
   \<and> ofInt 9007199254740995 = Fin False 4503599627370498 1
   \<and> fdiv (ofInt 1) (ofInt 0) = Infty False
   \<and> fdiv (ofInt (- 1)) (ofInt 0) = Infty True
   \<and> fdiv (ofInt 0) (ofInt 0) = NaN
   \<and> fdiv (ofInt 0) (ofInt (- 5)) = Fin True 0 (- 1074)
   \<and> fgt (fdiv (ofInt 1) (ofInt 3)) (fdiv (ofInt 1) (ofInt 4))
   \<and> \<not> fgt (ofInt 0) (fdiv (ofInt 0) (ofInt (- 5)))"
  by code_simp

section \<open>Properties of training\<close>

lemma words_addSentence: "words (addSentence c s cl) = words c"
  by (simp add: addSentence_def)

lemma dataset_addWord: "dataset (addWord c w cl) = dataset c"
  by (simp add: addWord_def Let_def)

lemma sentencesOf_addWord: "sentencesOf (addWord c w cl) k = sentencesOf c k"
  by (simp add: sentencesOf_def dataset_addWord)

lemma sentencesOf_addSentence:
  "sentencesOf (addSentence c s cl) k = (if k = cl then sentencesOf c k @ [s] else sentencesOf c k)"
  by (simp add: sentencesOf_def addSentence_def)

lemma spec_count_addSentence: "spec_count (addSentence c s cl) w k = spec_count c w k"
  by (simp add: spec_count_def words_addSentence)

lemma spec_count_addWord:
  "spec_count (addWord c w cl) w' cl' =
     spec_count c w' cl' + (if w' = w \<and> cl' = cl then 1 else 0)"
  by (cases "map_of (words c) w")
     (auto simp: spec_count_def addWord_def Let_def update_conv' intAt_def)

lemma spec_count_addWords:
  "spec_count (foldl (\<lambda>c w. addWord c w cl) c ws) w' cl' =
     spec_count c w' cl' + (if cl' = cl then int (count_list ws w') else 0)"
  by (induction ws arbitrary: c) (auto simp: spec_count_addWord)

lemma sentencesOf_addWords:
  "sentencesOf (foldl (\<lambda>c w. addWord c w cl) c ws) k = sentencesOf c k"
  by (induction ws arbitrary: c) (auto simp: sentencesOf_addWord)

lemma spec_count_trainEntry:
  "spec_count (trainEntry ul c kv) w cl =
     spec_count c w cl + (if snd kv = cl then int (count_list (tokenize ul (fst kv)) w) else 0)"
  by (cases kv) (auto simp: trainEntry_def spec_count_addWords spec_count_addSentence)

lemma sentencesOf_trainEntry:
  "length (sentencesOf (trainEntry ul c kv) cl) =
     length (sentencesOf c cl) + (if snd kv = cl then 1 else 0)"
  by (cases kv) (auto simp: trainEntry_def sentencesOf_addWords sentencesOf_addSentence)

lemma spec_count_train:
  "spec_count (train ul c kvs) w cl = spec_count c w cl + spec_occurrences ul kvs w cl"
  unfolding train_def spec_occurrences_def
  by (induction kvs arbitrary: c) (simp_all add: spec_count_trainEntry)

lemma sentencesOf_train:
  "length (sentencesOf (train ul c kvs) cl) = length (sentencesOf c cl) + spec_labelled kvs cl"
  unfolding train_def spec_labelled_def
  by (induction kvs arbitrary: c) (simp_all add: sentencesOf_trainEntry)

lemma spec_occurrences_perm:
  assumes "mset kvs' = mset kvs"
  shows "spec_occurrences ul kvs' w cl = spec_occurrences ul kvs w cl"
proof -
  let ?f = "\<lambda>kv. if snd kv = cl then int (count_list (tokenize ul (fst kv)) w) else 0"
  have "sum_list (map ?f kvs') = sum_mset (image_mset ?f (mset kvs'))"
    by (simp flip: sum_mset_sum_list)
  also have "\<dots> = sum_list (map ?f kvs)"
    by (simp add: assms flip: sum_mset_sum_list)
  finally show ?thesis by (simp add: spec_occurrences_def)
qed

lemma spec_labelled_perm:
  assumes "mset kvs' = mset kvs"
  shows "spec_labelled kvs' cl = spec_labelled kvs cl"
proof -
  have "mset (filter (\<lambda>kv. snd kv = cl) kvs') = mset (filter (\<lambda>kv. snd kv = cl) kvs)"
    by (simp add: assms)
  then show ?thesis unfolding spec_labelled_def by (rule mset_eq_length)
qed

lemma spec_count_new: "spec_count newClassifier w cl = 0"
  by (simp add: spec_count_def newClassifier_def)

lemma sentencesOf_new: "sentencesOf newClassifier cl = []"
  by (simp add: sentencesOf_def newClassifier_def)

text \<open>
  Claim C5, as amended. Training twice with the same corpus, each run ranging over it
  in an order of its own, adds to every counter and to every sentence set twice what
  training once adds; from a new classifier, all counts and sizes after two runs are
  exactly double those after one. (From a state that holds counts already, the counts
  after two runs are not double those after one.)
\<close>

theorem train_twice_adds_double:
  assumes "mset kvs' = mset kvs"
  shows "spec_count (train ul (train ul c kvs) kvs') w cl - spec_count c w cl
           = 2 * (spec_count (train ul c kvs) w cl - spec_count c w cl)
         \<and> int (length (sentencesOf (train ul (train ul c kvs) kvs') cl))
             - int (length (sentencesOf c cl))
           = 2 * (int (length (sentencesOf (train ul c kvs) cl))
                  - int (length (sentencesOf c cl)))
         \<and> spec_count (train ul (train ul newClassifier kvs) kvs') w cl
           = 2 * spec_count (train ul newClassifier kvs) w cl
         \<and> length (sentencesOf (train ul (train ul newClassifier kvs) kvs') cl)
           = 2 * length (sentencesOf (train ul newClassifier kvs) cl)"
  by (simp add: spec_count_train sentencesOf_train spec_occurrences_perm [OF assms]
      spec_labelled_perm [OF assms] spec_count_new sentencesOf_new)

lemma corpusA_once:
  "spec_count (train sampleLower newClassifier corpusA) ''good'' positive = 3
   \<and> length (sentencesOf (train sampleLower newClassifier corpusA) negative) = 1"
  by code_simp

theorem train_twice_adds_double_witness:
  "mset (rev corpusA) = mset corpusA
   \<and> spec_count (train sampleLower (train sampleLower newClassifier corpusA) (rev corpusA))
       ''good'' positive = 6
   \<and> length (sentencesOf
        (train sampleLower (train sampleLower newClassifier corpusA) (rev corpusA)) negative) = 2"
  using train_twice_adds_double [of "rev corpusA" corpusA sampleLower newClassifier "''good''" positive]
    train_twice_adds_double [of "rev corpusA" corpusA sampleLower newClassifier "''good''" negative]
    corpusA_once
  by simp

text \<open>
  The claim as it was stated fails from a state that is not new: after one sentence
  "good" of the class positive, training once with the corpus of the one sentence "bad"
  of the class negative leaves the counter of "good" at 1, and training twice leaves it
  at 1, not at 2; the positive sentence set has one sentence after either.
\<close>

theorem train_twice_not_double_counterexample:
  "spec_count
     (train sampleLower
        (train sampleLower (train sampleLower newClassifier [(''good'', positive)])
           [(''bad'', negative)])
        [(''bad'', negative)]) ''good'' positive
   \<noteq> 2 * spec_count
       (train sampleLower (train sampleLower newClassifier [(''good'', positive)])
          [(''bad'', negative)]) ''good'' positive"
  by code_simp

section \<open>Properties of the classifier\<close>

subsection \<open>The prior probability\<close>

lemma positive_neq_negative: "positive \<noteq> negative"
  by (simp add: positive_def negative_def)

lemma priorProb_finite:
  assumes "0 < length (sentencesOf c positive) + length (sentencesOf c negative)"
    "length (sentencesOf c positive) + length (sentencesOf c negative) < 2 ^ 63"
    "cl = positive \<or> cl = negative"
  shows "isFinite (priorProb c cl)"
proof -
  define k where "k = length (sentencesOf c positive) + length (sentencesOf c negative)"
  define j where "j = length (sentencesOf c cl)"
  have k: "0 < k" "k < 2 ^ 63" using assms(1,2) by (simp_all only: k_def)
  have jk: "j \<le> k" using assms(3) by (auto simp: j_def k_def)
  have "int k < int (2 ^ 63)" using k(2) by (simp only: of_nat_less_iff)
  then have n: "0 < int k" "int k < 2 ^ 63" using k(1) by simp_all
  have a: "0 \<le> int j" "int j < 2 ^ 63" using jk n by simp_all
  have "isFinite (fdiv (ofInt (int j)) (ofInt (int k)))"
    by (rule fdiv_counts_finite [OF a n])
  then show ?thesis by (simp only: priorProb_def Let_def j_def k_def)
qed

lemma priorProb_untrained:
  assumes "sentencesOf c positive = []" "sentencesOf c negative = []"
  shows "priorProb c positive = NaN \<and> priorProb c negative = NaN"
  using assms by (simp add: priorProb_def ofInt_zero)

lemma probability_nil: "probability c [] cl = priorProb c cl"
  by (simp add: probability_def)

text \<open>
  Claim C3, as amended. \<open>priorProb\<close> has no guard: when both sentence sets are empty it
  evaluates the quotient of the floating-point numbers 0 and 0, which raises nothing
  and is NaN, for the class positive and for the class negative.
\<close>

theorem priorProb_unguarded:
  assumes "sentencesOf c positive = []" "sentencesOf c negative = []"
  shows "priorProb c positive = NaN \<and> priorProb c negative = NaN"
  using assms by (rule priorProb_untrained)

text \<open>
  A classifier trained with one sentence of a third class has both sentence sets empty.
\<close>

lemma neutral_sets_empty:
  "sentencesOf (train sampleLower newClassifier [(''fine'', ''neutral'')]) positive = []
   \<and> sentencesOf (train sampleLower newClassifier [(''fine'', ''neutral'')]) negative = []"
  by code_simp

theorem priorProb_unguarded_witness:
  "sentencesOf (train sampleLower newClassifier [(''fine'', ''neutral'')]) positive = []
   \<and> sentencesOf (train sampleLower newClassifier [(''fine'', ''neutral'')]) negative = []
   \<and> priorProb (train sampleLower newClassifier [(''fine'', ''neutral'')]) positive = NaN
   \<and> priorProb (train sampleLower newClassifier [(''fine'', ''neutral'')]) negative = NaN"
  using priorProb_unguarded [of "train sampleLower newClassifier [(''fine'', ''neutral'')]"]
    neutral_sets_empty
  by simp

text \<open>
  The claim as it was stated fails: on the new classifier \<open>priorProb\<close> returns NaN, which
  is not a finite number.
\<close>

theorem priorProb_guard_counterexample:
  "priorProb newClassifier positive = NaN \<and> \<not> isFinite (priorProb newClassifier positive)
   \<and> priorProb newClassifier negative = NaN \<and> \<not> isFinite (priorProb newClassifier negative)"
  by code_simp

text \<open>
  Claim C4, as amended. For every classifier and every sentence without tokens,
  \<open>classify\<close> returns for each of the two classes the prior probability of that class.
  These scores are finite when the two sentence sets hold at least one sentence
  (and fewer than \<open>2\<^sup>6\<^sup>3\<close>, the bound of a Go \<open>int\<close>).
\<close>

theorem classify_no_tokens:
  assumes "tokenize ul s = []"
  shows "classify ul c s positive = Some (priorProb c positive)
         \<and> classify ul c s negative = Some (priorProb c negative)
         \<and> (0 < length (sentencesOf c positive) + length (sentencesOf c negative)
            \<and> length (sentencesOf c positive) + length (sentencesOf c negative) < 2 ^ 63
            \<longrightarrow> isFinite (priorProb c positive) \<and> isFinite (priorProb c negative))"
  using assms positive_neq_negative priorProb_finite [of c positive]
    priorProb_finite [of c negative]
  by (simp add: classify_def Let_def probability_nil)

lemma corpusA_sizes:
  "length (sentencesOf (train sampleLower newClassifier corpusA) positive) = 1
   \<and> length (sentencesOf (train sampleLower newClassifier corpusA) negative) = 1"
  by code_simp

lemma stop_words_only: "tokenize sampleLower ''The, is! a'' = []"
  by code_simp

theorem classify_no_tokens_witness:
  "tokenize sampleLower ''The, is! a'' = []
   \<and> classify sampleLower (train sampleLower newClassifier corpusA) ''The, is! a'' positive
       = Some (priorProb (train sampleLower newClassifier corpusA) positive)
   \<and> isFinite (priorProb (train sampleLower newClassifier corpusA) positive)
   \<and> isFinite (priorProb (train sampleLower newClassifier corpusA) negative)"
  using classify_no_tokens [OF stop_words_only, of "train sampleLower newClassifier corpusA"]
    corpusA_sizes stop_words_only
  by simp

text \<open>
  The claim as it was stated fails on the new classifier: the empty sentence has no
  tokens, and both scores are NaN.
\<close>

theorem classify_no_tokens_counterexample:
  "tokenize sampleLower [] = []
   \<and> classify sampleLower newClassifier [] positive = Some NaN
   \<and> classify sampleLower newClassifier [] negative = Some NaN
   \<and> \<not> isFinite NaN"
  by code_simp

subsection \<open>The word counts and the scores\<close>

lemma foldl_add_sum: "foldl (\<lambda>a x. a + f x) z xs = z + sum_list (map f xs)" for z :: int
  by (induction xs arbitrary: z) auto

lemma foldl_pair_sum:
  "foldl (\<lambda>pn x. (fst pn + f x, snd pn + g x)) (a, b) xs
     = (a + sum_list (map f xs), b + sum_list (map g xs))" for a b :: int
  by (induction xs arbitrary: a b) auto

lemma sum_list_perm:
  "mset xs = mset ys \<Longrightarrow> sum_list (map f xs) = sum_list (map f ys)" for f :: "'a \<Rightarrow> int"
proof -
  assume "mset xs = mset ys"
  then have "sum_mset (image_mset f (mset xs)) = sum_mset (image_mset f (mset ys))" by simp
  then show ?thesis by (simp flip: sum_mset_sum_list)
qed

lemma wordCount_sum: "wordCount c cl = spec_classWordCount c positive"
  by (simp add: wordCount_def spec_classWordCount_def foldl_add_sum)

lemma totalDistinctWordCount_sum:
  "totalDistinctWordCount c =
     sum_list (map (\<lambda>kv. zeroOneTransform (intAt (counter (snd kv)) positive)) (words c))
     + sum_list (map (\<lambda>kv. zeroOneTransform (intAt (counter (snd kv)) negative)) (words c))"
  by (simp add: totalDistinctWordCount_def foldl_pair_sum)

lemma wordCount_perm: "mset (words c') = mset (words c) \<Longrightarrow> wordCount c' cl = wordCount c cl"
  using sum_list_perm [of "words c'" "words c" "\<lambda>kv. intAt (counter (snd kv)) positive"]
  by (simp add: wordCount_sum spec_classWordCount_def)

lemma totalDistinctWordCount_perm:
  "mset (words c') = mset (words c) \<Longrightarrow> totalDistinctWordCount c' = totalDistinctWordCount c"
  using sum_list_perm [of "words c'" "words c"
      "\<lambda>kv. zeroOneTransform (intAt (counter (snd kv)) positive)"]
    sum_list_perm [of "words c'" "words c"
      "\<lambda>kv. zeroOneTransform (intAt (counter (snd kv)) negative)"]
  by (simp add: totalDistinctWordCount_sum)

lemma map_of_perm:
  assumes "distinct (map fst xs)" "mset ys = mset xs"
  shows "map_of ys = map_of xs"
proof -
  have "mset (map fst ys) = mset (map fst xs)" using assms(2) by simp
  then have "distinct (map fst ys)" using assms(1) by (metis mset_eq_imp_distinct_iff)
  moreover have "set ys = set xs" using assms(2) by (rule mset_eq_setD)
  ultimately show ?thesis using assms(1) by (simp add: map_of_inject_set)
qed

lemma count_in_class:
  "(case map_of (words c) w of Some wfq \<Rightarrow> intAt (counter wfq) cl | None \<Rightarrow> 0)
     = spec_count c w cl"
  by (simp add: spec_count_def split: option.split)

lemma count_in_both:
  "(case map_of (words c) w of
      Some wfq \<Rightarrow> intAt (counter wfq) positive + intAt (counter wfq) negative
    | None \<Rightarrow> 0)
     = spec_totalOccurrences c w"
  by (simp add: spec_totalOccurrences_def spec_count_def split: option.split)

lemma probability_formula:
  "probability c ws cl
     = spec_formula (wordCount c cl) (totalWordCount c) (totalDistinctWordCount c) c ws cl"
  by (simp add: probability_def spec_formula_def Let_def count_in_class count_in_both)

lemma priorProb_cong: "dataset c' = dataset c \<Longrightarrow> priorProb c' cl = priorProb c cl"
  by (simp add: priorProb_def sentencesOf_def)

lemma probability_perm:
  assumes "distinct (map fst (words c))" "mset (words c') = mset (words c)" "dataset c' = dataset c"
  shows "probability c' ws cl = probability c ws cl"
proof -
  have m: "map_of (words c') = map_of (words c)"
    using assms(1,2) by (rule map_of_perm)
  show ?thesis
    by (simp add: probability_def Let_def m priorProb_cong [OF assms(3)] totalWordCount_def
        wordCount_perm [OF assms(2)] totalDistinctWordCount_perm [OF assms(2)])
qed

text \<open>
  Claim C1 (the code departs from it). \<open>wordCount\<close> returns the sum of the counters of
  the class positive, whatever class it is asked for. After training a new classifier
  with "good good good" as positive and "bad bad" as negative, it returns 3 for the
  class negative, where the sum of the negative counters is 2.
\<close>

theorem wordCount_ignores_class:
  "wordCount c cl = spec_classWordCount c positive
   \<and> wordCount (train sampleLower newClassifier corpusA) positive = 3
   \<and> wordCount (train sampleLower newClassifier corpusA) negative = 3
   \<and> spec_classWordCount (train sampleLower newClassifier corpusA) negative = 2"
proof -
  have "wordCount (train sampleLower newClassifier corpusA) positive = 3
        \<and> wordCount (train sampleLower newClassifier corpusA) negative = 3
        \<and> spec_classWordCount (train sampleLower newClassifier corpusA) negative = 2"
    by code_simp
  then show ?thesis by (simp add: wordCount_sum)
qed

text \<open>
  Claim C2 (the code departs from it). \<open>probability\<close> has the two passes of the
  specification, all multiplications before all divisions, each in the order of the
  tokens; but the word counts in it are those of \<open>wordCount\<close>: the class word count is
  the sum of the positive counters for either class, and the total word count is twice
  that sum. For the classifier trained with "good good good" as positive and "bad bad"
  as negative, the score of the token "bad" for the class negative is
  \<open>7205759403792793 * 2\<^sup>-\<^sup>5\<^sup>3\<close> (0.7999999999999999), where the formula of the
  specification gives \<open>7881299347898368 * 2\<^sup>-\<^sup>5\<^sup>3\<close> (0.875).
\<close>

theorem probability_uses_positive_counts:
  "probability c ws cl
     = spec_formula (wordCount c cl) (totalWordCount c) (totalDistinctWordCount c) c ws cl
   \<and> wordCount c cl = spec_classWordCount c positive
   \<and> totalWordCount c = 2 * spec_classWordCount c positive
   \<and> probability (train sampleLower newClassifier corpusA) [''bad''] negative
       = Fin False 7205759403792793 (- 53)
   \<and> spec_probability (train sampleLower newClassifier corpusA) [''bad''] negative
       = Fin False 7881299347898368 (- 53)"
proof -
  have "probability (train sampleLower newClassifier corpusA) [''bad''] negative
          = Fin False 7205759403792793 (- 53)
        \<and> spec_probability (train sampleLower newClassifier corpusA) [''bad''] negative
          = Fin False 7881299347898368 (- 53)"
    by code_simp
  then show ?thesis
    by (simp add: probability_formula [of c ws cl] wordCount_sum totalWordCount_def)
qed

text \<open>
  Claim C10. The result of \<open>classify\<close> does not depend on the order in which the
  entries of the map \<open>words\<close> are ranged over: for two lists of the same entries (the
  keys of a map are distinct) and the same sentence sets, \<open>classify\<close> returns the same
  scores for every sentence, and \<open>wordCount\<close> and \<open>totalDistinctWordCount\<close> return the
  same sums. The floating-point operations are applied along the list of tokens.
\<close>

theorem classify_deterministic:
  assumes "distinct (map fst (words c))" "mset (words c') = mset (words c)"
    "dataset c' = dataset c"
  shows "classify ul c' s = classify ul c s
         \<and> wordCount c' cl = wordCount c cl
         \<and> totalDistinctWordCount c' = totalDistinctWordCount c"
  by (simp add: classify_def Let_def probability_perm [OF assms] wordCount_perm [OF assms(2)]
      totalDistinctWordCount_perm [OF assms(2)])

lemma corpusA_keys:
  "map fst (words (train sampleLower newClassifier corpusA)) = [''good'', ''bad'']"
  by code_simp

theorem classify_deterministic_witness:
  "distinct (map fst (words (train sampleLower newClassifier corpusA)))
   \<and> mset (words ((train sampleLower newClassifier corpusA)
               \<lparr>words := rev (words (train sampleLower newClassifier corpusA))\<rparr>))
       = mset (words (train sampleLower newClassifier corpusA))
   \<and> classify sampleLower
        ((train sampleLower newClassifier corpusA)
           \<lparr>words := rev (words (train sampleLower newClassifier corpusA))\<rparr>) ''bad''
       = classify sampleLower (train sampleLower newClassifier corpusA) ''bad''"
  using classify_deterministic [of "train sampleLower newClassifier corpusA"
      "(train sampleLower newClassifier corpusA)
         \<lparr>words := rev (words (train sampleLower newClassifier corpusA))\<rparr>"
      sampleLower "''bad''"]
    corpusA_keys
  by simp

subsection \<open>The frequency table\<close>

lemma set_update_cases: "kv \<in> set (AList.update k v al) \<Longrightarrow> kv = (k, v) \<or> kv \<in> set al"
  by (induction al) (auto split: if_splits)

lemma bothClasses_addWord: 
  assumes "bothClasses c" 
  shows "bothClasses (addWord c w cl)"
proof -
  define old where "old = (case map_of (words c) w of Some wfq \<Rightarrow> wfq
       | None \<Rightarrow> \<lparr>word = w, counter = [positive \<mapsto> 0, negative \<mapsto> 0]\<rparr>)"
  have o: "counter old positive \<noteq> None \<and> counter old negative \<noteq> None"
  proof (cases "map_of (words c) w")
    case None
    then show ?thesis by (simp add: old_def)
  next
    case (Some wfq)
    then have "(w, wfq) \<in> set (words c)" by (rule map_of_SomeD)
    with assms Some show ?thesis by (auto simp: old_def bothClasses_def)
  qed
  have w: "words (addWord c w cl)
           = AList.update w (old\<lparr>counter := (counter old)(cl \<mapsto> intAt (counter old) cl + 1)\<rparr>) (words c)"
    by (simp add: addWord_def old_def Let_def)
  show ?thesis
    unfolding bothClasses_def w
  proof
    fix kv
    assume "kv \<in> set (AList.update w (old\<lparr>counter := (counter old)(cl \<mapsto> intAt (counter old) cl + 1)\<rparr>) (words c))"
    then have "kv = (w, old\<lparr>counter := (counter old)(cl \<mapsto> intAt (counter old) cl + 1)\<rparr>) \<or> kv \<in> set (words c)"
      by (rule set_update_cases)
    then show "counter (snd kv) positive \<noteq> None \<and> counter (snd kv) negative \<noteq> None"
      using o assms by (auto simp: bothClasses_def)
  qed
qed

lemma bothClasses_addSentence: "bothClasses c \<Longrightarrow> bothClasses (addSentence c s cl)"
  by (simp add: bothClasses_def words_addSentence)

lemma bothClasses_addWords: "bothClasses c \<Longrightarrow> bothClasses (foldl (\<lambda>c w. addWord c w cl) c ws)"
  by (induction ws arbitrary: c) (auto simp: bothClasses_addWord)

lemma bothClasses_trainEntry: "bothClasses c \<Longrightarrow> bothClasses (trainEntry ul c kv)"
  by (cases kv) (simp add: trainEntry_def bothClasses_addWords bothClasses_addSentence)

lemma bothClasses_train: "bothClasses c \<Longrightarrow> bothClasses (train ul c kvs)"
  unfolding train_def by (induction kvs arbitrary: c) (auto simp: bothClasses_trainEntry)

lemma bothClasses_exec: "bothClasses c \<Longrightarrow> bothClasses (exec ul c op)"
  by (cases op) (auto simp: bothClasses_train)

lemma bothClasses_run: "bothClasses c \<Longrightarrow> bothClasses (foldl (exec ul) c ops)"
  by (induction ops arbitrary: c) (auto simp: bothClasses_exec)

lemma bothClasses_new: "bothClasses newClassifier"
  by (simp add: bothClasses_def newClassifier_def)

lemma keys_addWord: "set (map fst (words (addWord c w cl))) = insert w (set (map fst (words c)))"
  by (auto simp: addWord_def Let_def update_keys)

lemma keys_addWords:
  "set (map fst (words c)) \<subseteq> set (map fst (words (foldl (\<lambda>c w. addWord c w cl) c ws)))"
proof (induction ws arbitrary: c)
  case Nil
  show ?case by simp
next
  case (Cons w ws)
  have "set (map fst (words c)) \<subseteq> set (map fst (words (addWord c w cl)))"
    by (simp only: keys_addWord) blast
  also have "\<dots> \<subseteq> set (map fst (words (foldl (\<lambda>c w. addWord c w cl) (addWord c w cl) ws)))"
    by (rule Cons.IH)
  finally show ?case by simp
qed

lemma keys_trainEntry: "set (map fst (words c)) \<subseteq> set (map fst (words (trainEntry ul c kv)))"
  using keys_addWords [of "addSentence c (fst kv) (snd kv)" "snd kv" "tokenize ul (fst kv)"]
  by (cases kv) (simp add: trainEntry_def words_addSentence)

lemma keys_train: "set (map fst (words c)) \<subseteq> set (map fst (words (train ul c kvs)))"
  unfolding train_def
proof (induction kvs arbitrary: c)
  case Nil
  show ?case by simp
next
  case (Cons kv kvs)
  have "set (map fst (words c)) \<subseteq> set (map fst (words (trainEntry ul c kv)))"
    by (rule keys_trainEntry)
  also have "\<dots> \<subseteq> set (map fst (words (foldl (trainEntry ul) (trainEntry ul c kv) kvs)))"
    by (rule Cons.IH)
  finally show ?case by simp
qed

lemma spec_occurrences_nonneg: "0 \<le> spec_occurrences ul kvs w cl"
  unfolding spec_occurrences_def by (rule sum_list_nonneg) auto

lemma words_cong_addWord: "words c' = words c \<Longrightarrow> words (addWord c' w cl) = words (addWord c w cl)"
  by (simp add: addWord_def Let_def)

lemma words_cong_addVotes:
  "words c' = words c \<Longrightarrow>
   words (foldl (\<lambda>c wc. addWord c (fst wc) (snd wc)) c' vs)
     = words (foldl (\<lambda>c wc. addWord c (fst wc) (snd wc)) c vs)"
proof (induction vs arbitrary: c c')
  case Nil
  then show ?case by simp
next
  case (Cons v vs)
  have "words (addWord c' (fst v) (snd v)) = words (addWord c (fst v) (snd v))"
    using Cons.prems by (rule words_cong_addWord)
  then have "words (foldl (\<lambda>c wc. addWord c (fst wc) (snd wc)) (addWord c' (fst v) (snd v)) vs)
             = words (foldl (\<lambda>c wc. addWord c (fst wc) (snd wc)) (addWord c (fst v) (snd v)) vs)"
    by (rule Cons.IH)
  then show ?case by simp
qed

lemma addWords_votes:
  "foldl (\<lambda>c w. addWord c w cl) c ws
     = foldl (\<lambda>c wc. addWord c (fst wc) (snd wc)) c (map (\<lambda>w. (w, cl)) ws)"
  by (induction ws arbitrary: c) auto

lemma words_trainEntry:
  "words (trainEntry ul c kv)
     = words (foldl (\<lambda>c wc. addWord c (fst wc) (snd wc)) c
                (map (\<lambda>w. (w, snd kv)) (tokenize ul (fst kv))))"
  by (cases kv)
     (simp add: trainEntry_def addWords_votes words_cong_addVotes [OF words_addSentence])

lemma words_train:
  "words (train ul c kvs)
     = words (foldl (\<lambda>c wc. addWord c (fst wc) (snd wc)) c (spec_votes ul kvs))"
  unfolding train_def spec_votes_def
proof (induction kvs arbitrary: c)
  case Nil
  show ?case by simp
next
  case (Cons kv kvs)
  have "words (foldl (trainEntry ul) (trainEntry ul c kv) kvs)
        = words (foldl (\<lambda>c wc. addWord c (fst wc) (snd wc)) (trainEntry ul c kv)
             (concat (map (\<lambda>kv. map (\<lambda>w. (w, snd kv)) (tokenize ul (fst kv))) kvs)))"
    by (rule Cons.IH)
  also have "\<dots> = words (foldl (\<lambda>c wc. addWord c (fst wc) (snd wc))
             (foldl (\<lambda>c wc. addWord c (fst wc) (snd wc)) c
                (map (\<lambda>w. (w, snd kv)) (tokenize ul (fst kv))))
             (concat (map (\<lambda>kv. map (\<lambda>w. (w, snd kv)) (tokenize ul (fst kv))) kvs)))"
    by (rule words_cong_addVotes) (rule words_trainEntry)
  finally show ?case by simp
qed

text \<open>
  Claim C7. After any sequence of \<open>train\<close> and \<open>classify\<close> on a new classifier, every
  token of the frequency table has a counter for the class positive and one for the
  class negative. The table changes through \<open>addWord\<close> only: \<open>addSentence\<close> leaves it
  alone, \<open>classify\<close> leaves the classifier alone, and the table after \<open>train\<close> is the
  table after the \<open>addWord\<close> calls for the tokens of the corpus. A call of \<open>addWord\<close> adds
  one to the counter of its token and class and changes no other counter, and it adds
  its token to the keys. No operation lowers a counter or removes a key.
\<close>

theorem frequency_table_invariant:
  "bothClasses (foldl (exec ul) newClassifier ops)
   \<and> words (addSentence c s cl) = words c
   \<and> words (train ul c kvs)
       = words (foldl (\<lambda>c wc. addWord c (fst wc) (snd wc)) c (spec_votes ul kvs))
   \<and> exec ul c (Classify s) = c
   \<and> spec_count (addWord c w cl) w' cl'
       = spec_count c w' cl' + (if w' = w \<and> cl' = cl then 1 else 0)
   \<and> set (map fst (words (addWord c w cl))) = insert w (set (map fst (words c)))
   \<and> spec_count c w' cl' \<le> spec_count (exec ul c op) w' cl'
   \<and> set (map fst (words c)) \<subseteq> set (map fst (words (exec ul c op)))"
proof -
  have "spec_count c w' cl' \<le> spec_count (exec ul c op) w' cl'"
    by (cases op) (simp_all add: spec_count_train spec_occurrences_nonneg)
  moreover have "set (map fst (words c)) \<subseteq> set (map fst (words (exec ul c op)))"
    by (cases op) (simp_all add: keys_train del: set_map)
  ultimately show ?thesis
    using bothClasses_run [OF bothClasses_new, of ul ops] words_train [of ul c kvs]
      keys_addWord [of c w cl]
    by (simp add: words_addSentence spec_count_addWord del: set_map)
qed

lemma run_sample:
  "map fst (words (foldl (exec sampleLower) newClassifier [Train corpusA, Classify ''good'']))
     = [''good'', ''bad'']
   \<and> spec_count (train sampleLower newClassifier corpusA) ''bad'' positive = 0"
  by code_simp

theorem frequency_table_invariant_witness:
  "bothClasses (foldl (exec sampleLower) newClassifier [Train corpusA, Classify ''good''])
   \<and> map fst (words (foldl (exec sampleLower) newClassifier [Train corpusA, Classify ''good'']))
       = [''good'', ''bad'']
   \<and> spec_count (addWord (train sampleLower newClassifier corpusA) ''bad'' positive)
        ''bad'' positive = 1"
  using frequency_table_invariant [of sampleLower "[Train corpusA, Classify ''good'']"
      "train sampleLower newClassifier corpusA" "''The''" positive "[]" "''bad''" "''bad''"
      positive "Classify ''good''"]
    run_sample
  by simp

text \<open>
  The keys of the table stay distinct, as the keys of a map are: every classifier
  reached from the new one meets the first hypothesis of \<open>classify_deterministic\<close>.
\<close>

lemma distinct_keys_addWord:
  "distinct (map fst (words c)) \<Longrightarrow> distinct (map fst (words (addWord c w cl)))"
  by (simp add: addWord_def Let_def distinct_update)

lemma distinct_keys_addWords:
  "distinct (map fst (words c)) \<Longrightarrow>
   distinct (map fst (words (foldl (\<lambda>c w. addWord c w cl) c ws)))"
proof (induction ws arbitrary: c)
  case Nil
  then show ?case by simp
next
  case (Cons w ws)
  from Cons.prems have "distinct (map fst (words (addWord c w cl)))"
    by (rule distinct_keys_addWord)
  then have "distinct (map fst (words (foldl (\<lambda>c w. addWord c w cl) (addWord c w cl) ws)))"
    by (rule Cons.IH)
  then show ?case by simp
qed

lemma distinct_keys_trainEntry:
  assumes "distinct (map fst (words c))"
  shows "distinct (map fst (words (trainEntry ul c kv)))"
proof -
  have "distinct (map fst (words (addSentence c (fst kv) (snd kv))))"
    using assms by (simp add: words_addSentence)
  then have "distinct (map fst (words (foldl (\<lambda>c w. addWord c w (snd kv))
      (addSentence c (fst kv) (snd kv)) (tokenize ul (fst kv)))))"
    by (rule distinct_keys_addWords)
  then show ?thesis by (cases kv) (simp add: trainEntry_def)
qed

lemma distinct_keys_train:
  "distinct (map fst (words c)) \<Longrightarrow> distinct (map fst (words (train ul c kvs)))"
  unfolding train_def
proof (induction kvs arbitrary: c)
  case Nil
  then show ?case by simp
next
  case (Cons kv kvs)
  from Cons.prems have "distinct (map fst (words (trainEntry ul c kv)))"
    by (rule distinct_keys_trainEntry)
  then have "distinct (map fst (words (foldl (trainEntry ul) (trainEntry ul c kv) kvs)))"
    by (rule Cons.IH)
  then show ?case by simp
qed

lemma distinct_keys_run:
  "distinct (map fst (words (foldl (exec ul) newClassifier ops)))"
proof -
  have "distinct (map fst (words c)) \<Longrightarrow> distinct (map fst (words (foldl (exec ul) c ops)))"
    for c
  proof (induction ops arbitrary: c)
    case Nil
    then show ?case by simp
  next
    case (Cons op ops)
    from Cons.prems have "distinct (map fst (words (exec ul c op)))"
      by (cases op) (simp_all add: distinct_keys_train)
    then have "distinct (map fst (words (foldl (exec ul) (exec ul c op) ops)))"
      by (rule Cons.IH)
    then show ?case by simp
  qed
  then show ?thesis by (simp add: newClassifier_def)
qed

subsection \<open>The class chosen by main\<close>

text \<open>
  Claim C9. For the scores that \<open>classify\<close> returns, the class chosen in \<open>main\<close> is
  positive exactly when the positive score is greater than the negative score, and
  negative otherwise; equal scores give negative.
\<close>

theorem mainClass_rule:
  "(mainClass (classify ul c s) = positive
      \<longleftrightarrow> fgt (probability c (tokenize ul s) positive) (probability c (tokenize ul s) negative))
   \<and> (mainClass (classify ul c s) = negative
      \<longleftrightarrow> \<not> fgt (probability c (tokenize ul s) positive) (probability c (tokenize ul s) negative))
   \<and> (probability c (tokenize ul s) positive = probability c (tokenize ul s) negative
      \<longrightarrow> mainClass (classify ul c s) = negative)"
  using positive_neq_negative fgt_irrefl
  by (auto simp: mainClass_def classify_def Let_def floatAt_def)

lemma tie_sample:
  "tokenize sampleLower ''It was'' = []
   \<and> probability (train sampleLower newClassifier corpusA) [] positive
       = probability (train sampleLower newClassifier corpusA) [] negative"
  by code_simp

theorem mainClass_rule_witness:
  "probability (train sampleLower newClassifier corpusA) (tokenize sampleLower ''It was'') positive
     = probability (train sampleLower newClassifier corpusA) (tokenize sampleLower ''It was'')
         negative
   \<and> mainClass (classify sampleLower (train sampleLower newClassifier corpusA) ''It was'')
       = negative"
  using mainClass_rule [of sampleLower "train sampleLower newClassifier corpusA" "''It was''"]
    tie_sample
  by simp

end
